theory Spec2Isabelle
  imports Main "HOL-Library.AList" "HOL-Library.Sublist"
begin

section \<open>The key-value backend behind \<open>RedisClientLike\<close>\<close>

text \<open>
  Modelled from the spec: the key-value server. \<open>RedisStateStore\<close> talks to it through
  the interface \<open>RedisClientLike\<close> (\<open>setEx\<close>, \<open>get\<close>, \<open>del\<close>, \<open>keys\<close>, \<open>expire\<close>,
  \<open>exists\<close>); the repository declares the interface and nothing behind it, and
  section 6 of the spec gives the contract of the six commands.

  The state passed through every operation is a \<open>world\<close>:
  \<^item> \<open>entries\<close>: what the server holds, key to (value, remaining seconds), in insertion
    order and updated in place;
  \<^item> \<open>calls\<close>: the commands the client has received, oldest first (what a jest mock
    records);
  \<^item> \<open>failing\<close>: the commands that currently reject (what \<open>mockRejectedValue\<close> arranges in
    the tests named "should handle Redis errors");
  \<^item> \<open>warnings\<close>: the messages handed to \<open>Logger.warn\<close> (the scopes opened with
    \<open>Logger.create\<close> carry no message of their own and are left out).
  Time does not pass between two operations: expiry by the server is not modelled.
  Operations run one after the other; each returns its result, or \<open>Inl RedisError\<close> when
  the promise rejects, together with the world it leaves behind.

  The jest double in \<open>RedisStateStore.test.ts\<close> is not this backend: it offers \<open>setex\<close>
  and a variadic \<open>del\<close>, while the class calls \<open>setEx\<close> and \<open>del\<close> with one key or an
  array of keys, as \<open>RedisClientLike\<close> declares them.
\<close>

datatype redis_op = OpSetEx | OpGet | OpDel | OpKeys | OpExpire | OpExists

datatype redis_call =
    SetEx string int string
  | Get string
  | Del "string list"
  | Keys string
  | Expire string int
  | Exists string

datatype error = RedisError

record world =
  entries :: "(string \<times> (string \<times> int)) list"
  calls :: "redis_call list"
  failing :: "redis_op list"
  warnings :: "string list"

type_synonym 'a io = "world \<Rightarrow> (error + 'a) \<times> world"

definition record_call :: "redis_call \<Rightarrow> world \<Rightarrow> world" where
  "record_call c w = w\<lparr>calls := calls w @ [c]\<rparr>"

definition rejects :: "redis_op \<Rightarrow> world \<Rightarrow> bool" where
  "rejects op w = (op \<in> set (failing w))"

subsection \<open>Glob patterns of \<open>keys\<close>\<close>

text \<open>
  Modelled from the spec: list-keys-by-pattern takes a glob pattern (section 6). The
  matcher is the glob dialect of the Redis command KEYS: \<open>*\<close> matches any run of
  characters, \<open>?\<close> one character, \<open>[...]\<close> one character of a class (with \<open>^\<close> for the
  complement, \<open>a-z\<close> for a range and backslash escapes), backslash takes the next
  character literally, and the whole key has to match.
\<close>

definition in_range :: "char \<Rightarrow> char \<Rightarrow> char \<Rightarrow> bool" where
  "in_range a b c =
     (let lo = min (of_char a :: nat) (of_char b); hi = max (of_char a :: nat) (of_char b)
      in lo \<le> of_char c \<and> of_char c \<le> hi)"

fun glob_class :: "char \<Rightarrow> string \<Rightarrow> bool \<times> string" where
  "glob_class c [] = (False, [])"
| "glob_class c (x # p) =
     (if x = CHR '']'' then (False, p)
      else if x = CHR 0x5C then
        (case p of
           [] \<Rightarrow> (False, [])
         | y # q \<Rightarrow> (case glob_class c q of (m, r) \<Rightarrow> (m \<or> y = c, r)))
      else
        (case p of
           d # e # q \<Rightarrow>
             if d = CHR ''-'' then (case glob_class c q of (m, r) \<Rightarrow> (m \<or> in_range x e c, r))
             else (case glob_class c p of (m, r) \<Rightarrow> (m \<or> x = c, r))
         | _ \<Rightarrow> (case glob_class c p of (m, r) \<Rightarrow> (m \<or> x = c, r))))"

fun glob_match :: "string \<Rightarrow> string \<Rightarrow> bool" where
  "glob_match [] s = (s = [])"
| "glob_match (c # p) s =
     (if c = CHR ''*'' then
        (glob_match p s \<or> (case s of [] \<Rightarrow> False | _ # s' \<Rightarrow> glob_match (c # p) s'))
      else
        (case s of
           [] \<Rightarrow> False
         | x # s' \<Rightarrow>
             if c = CHR ''?'' then glob_match p s'
             else if c = CHR ''['' then
               (case p of
                  [] \<Rightarrow> False
                | u # p' \<Rightarrow>
                    if u = CHR ''^''
                    then (case glob_class x p' of (m, r) \<Rightarrow> \<not> m \<and> glob_match r s')
                    else (case glob_class x p of (m, r) \<Rightarrow> m \<and> glob_match r s'))
             else if c = CHR 0x5C then
               (case p of
                  [] \<Rightarrow> x = c \<and> s' = []
                | y # q \<Rightarrow> x = y \<and> glob_match q s')
             else x = c \<and> glob_match p s'))"

definition glob_special :: "char \<Rightarrow> bool" where
  "glob_special c = (c = CHR ''*'' \<or> c = CHR ''?'' \<or> c = CHR ''['' \<or> c = CHR 0x5C)"

definition glob_free :: "string \<Rightarrow> bool" where
  "glob_free p = (filter glob_special p = [])"

subsection \<open>The six commands\<close>

text \<open>
  Modelled from the spec: the contract table of section 6. \<open>setEx\<close> overwrites the value
  and resets the TTL; \<open>get\<close> has no effect on the entries; \<open>del\<close> takes one key or a list
  of keys and answers how many it deleted; \<open>keys\<close> answers the keys that match a glob
  pattern; \<open>expire\<close> answers whether the key existed and does nothing when it is
  absent; \<open>exists\<close> answers 1 or 0. A command listed in \<open>failing\<close> rejects and leaves
  the entries alone; the call is recorded either way. The contract puts no bound on
  the seconds, and neither does the model.
\<close>

definition redis_setEx :: "string \<Rightarrow> int \<Rightarrow> string \<Rightarrow> unit io" where
  "redis_setEx key seconds v w =
     (let w' = record_call (SetEx key seconds v) w in
      if rejects OpSetEx w then (Inl RedisError, w')
      else (Inr (), w'\<lparr>entries := AList.update key (v, seconds) (entries w')\<rparr>))"

definition redis_get :: "string \<Rightarrow> (string option) io" where
  "redis_get key w =
     (let w' = record_call (Get key) w in
      if rejects OpGet w then (Inl RedisError, w')
      else (Inr (map_option fst (map_of (entries w') key)), w'))"

fun del_keys :: "string list \<Rightarrow> (string \<times> (string \<times> int)) list \<Rightarrow> nat \<times> (string \<times> (string \<times> int)) list" where
  "del_keys [] es = (0, es)"
| "del_keys (k # ks) es =
     (case map_of es k of
        None \<Rightarrow> del_keys ks es
      | Some _ \<Rightarrow> (case del_keys ks (AList.delete k es) of (n, es') \<Rightarrow> (Suc n, es')))"

definition redis_del :: "string list \<Rightarrow> nat io" where
  "redis_del ks w =
     (let w' = record_call (Del ks) w in
      if rejects OpDel w then (Inl RedisError, w')
      else (case del_keys ks (entries w') of (n, es) \<Rightarrow> (Inr n, w'\<lparr>entries := es\<rparr>)))"

definition redis_keys :: "string \<Rightarrow> (string list) io" where
  "redis_keys pattern w =
     (let w' = record_call (Keys pattern) w in
      if rejects OpKeys w then (Inl RedisError, w')
      else (Inr (filter (glob_match pattern) (map fst (entries w'))), w'))"

definition redis_expire :: "string \<Rightarrow> int \<Rightarrow> bool io" where
  "redis_expire key seconds w =
     (let w' = record_call (Expire key seconds) w in
      if rejects OpExpire w then (Inl RedisError, w')
      else (case map_of (entries w') key of
              None \<Rightarrow> (Inr False, w')
            | Some (v, _) \<Rightarrow> (Inr True, w'\<lparr>entries := AList.update key (v, seconds) (entries w')\<rparr>)))"

definition redis_exists :: "string \<Rightarrow> nat io" where
  "redis_exists key w =
     (let w' = record_call (Exists key) w in
      if rejects OpExists w then (Inl RedisError, w')
      else (Inr (case map_of (entries w') key of None \<Rightarrow> 0 | Some _ \<Rightarrow> 1), w'))"

section \<open>\<open>RedisStateStore\<close>\<close>

text \<open>
  \<open>RedisConfig\<close> has six optional fields; the class reads \<open>keyPrefix\<close> and \<open>ttl\<close> only
  (\<open>host\<close>, \<open>port\<close>, \<open>password\<close> and \<open>db\<close> are never used). An omitted option is \<open>None\<close>.
  The constructor's \<open>config\<close> argument defaults to the empty object.
\<close>

record RedisConfig =
  keyPrefix :: "string option"
  ttl :: "int option"

definition empty_config :: RedisConfig where
  "empty_config = \<lparr>keyPrefix = None, ttl = None\<rparr>"

record RedisStateStore =
  store_prefix :: string
  store_ttl :: int

text \<open>JavaScript's \<open>a || b\<close> on a string and on a number: \<open>b\<close> when \<open>a\<close> is undefined, empty or zero.\<close>

definition or_string :: "string option \<Rightarrow> string \<Rightarrow> string" where
  "or_string a b = (case a of None \<Rightarrow> b | Some s \<Rightarrow> if s = [] then b else s)"

definition or_number :: "int option \<Rightarrow> int \<Rightarrow> int" where
  "or_number a b = (case a of None \<Rightarrow> b | Some n \<Rightarrow> if n = 0 then b else n)"

definition RedisStateStore_new :: "RedisConfig option \<Rightarrow> RedisStateStore" where
  "RedisStateStore_new config =
     (let cfg = (case config of None \<Rightarrow> empty_config | Some c \<Rightarrow> c) in
      \<lparr>store_prefix = or_string (keyPrefix cfg) ''oidc:'',
       store_ttl = or_number (ttl cfg) 3600\<rparr>)"

definition prefixedKey :: "RedisStateStore \<Rightarrow> string \<Rightarrow> string" where
  "prefixedKey S key = store_prefix S @ key"

definition RedisStateStore_set :: "RedisStateStore \<Rightarrow> string \<Rightarrow> string \<Rightarrow> unit io" where
  "RedisStateStore_set S key v w = redis_setEx (prefixedKey S key) (store_ttl S) v w"

definition RedisStateStore_get :: "RedisStateStore \<Rightarrow> string \<Rightarrow> (string option) io" where
  "RedisStateStore_get S key w = redis_get (prefixedKey S key) w"

definition RedisStateStore_remove :: "RedisStateStore \<Rightarrow> string \<Rightarrow> (string option) io" where
  "RedisStateStore_remove S key w =
     (case redis_get (prefixedKey S key) w of
        (Inl e, w1) \<Rightarrow> (Inl e, w1)
      | (Inr v, w1) \<Rightarrow>
          (case redis_del [prefixedKey S key] w1 of
             (Inl e, w2) \<Rightarrow> (Inl e, w2)
           | (Inr _, w2) \<Rightarrow> (Inr v, w2)))"

definition RedisStateStore_getAllKeys :: "RedisStateStore \<Rightarrow> (string list) io" where
  "RedisStateStore_getAllKeys S w =
     (case redis_keys (store_prefix S @ ''*'') w of
        (Inl e, w1) \<Rightarrow> (Inl e, w1)
      | (Inr ks, w1) \<Rightarrow> (Inr (map (drop (length (store_prefix S))) ks), w1))"

definition warn :: "string \<Rightarrow> world \<Rightarrow> world" where
  "warn msg w = w\<lparr>warnings := warnings w @ [msg]\<rparr>"

definition RedisStateStore_expire :: "RedisStateStore \<Rightarrow> string \<Rightarrow> int \<Rightarrow> unit io" where
  "RedisStateStore_expire S key seconds w =
     (case redis_expire (prefixedKey S key) seconds w of
        (Inl e, w1) \<Rightarrow> (Inl e, w1)
      | (Inr result, w1) \<Rightarrow>
          if \<not> result then (Inr (), warn (''Failed to set expiration for key: '' @ key) w1)
          else (Inr (), w1))"

definition RedisStateStore_exists :: "RedisStateStore \<Rightarrow> string \<Rightarrow> bool io" where
  "RedisStateStore_exists S key w =
     (case redis_exists (prefixedKey S key) w of
        (Inl e, w1) \<Rightarrow> (Inl e, w1)
      | (Inr result, w1) \<Rightarrow> (Inr (result = 1), w1))"

definition RedisStateStore_flushAll :: "RedisStateStore \<Rightarrow> unit io" where
  "RedisStateStore_flushAll S w =
     (case redis_keys (store_prefix S @ ''*'') w of
        (Inl e, w1) \<Rightarrow> (Inl e, w1)
      | (Inr ks, w1) \<Rightarrow>
          if length ks > 0 then
            (case redis_del ks w1 of
               (Inl e, w2) \<Rightarrow> (Inl e, w2)
             | (Inr _, w2) \<Rightarrow> (Inr (), w2))
          else (Inr (), w1))"

section \<open>JavaScript values and the \<open>JSON\<close> object\<close>

text \<open>
  A value that \<open>JSON.parse\<close> can return. Numbers are integers here, which is what
  \<open>expires_at\<close> (seconds since the epoch) needs. A property of an object literal, or a
  field of a \<open>User\<close>, is a \<open>jsval\<close>: a JSON value, or \<open>None\<close> for \<open>undefined\<close>. Values
  that JSON cannot carry (a function, a \<open>Date\<close>, \<open>NaN\<close>) are outside the model.
\<close>

datatype json =
    JNull
  | JBool bool
  | JNum int
  | JStr string
  | JArr "json list"
  | JObj "(string \<times> json) list"

type_synonym jsval = "json option"

text \<open>
  \<open>JSON.stringify\<close> and \<open>JSON.parse\<close> belong to the JavaScript runtime, not to the
  repository: the functions below take them as the two fields of a \<open>JSON\<close> parameter.
  \<open>parse\<close> answers \<open>None\<close> where \<open>JSON.parse\<close> throws a \<open>SyntaxError\<close>.
\<close>

record JSON =
  stringify :: "json \<Rightarrow> string"
  parse :: "string \<Rightarrow> json option"

text \<open>
  \<open>JSON.stringify\<close> leaves out the properties of an object whose value is \<open>undefined\<close>;
  \<open>defined_props\<close> is that step, so that \<open>stringify\<close> only ever sees JSON values.
\<close>

fun defined_props :: "(string \<times> jsval) list \<Rightarrow> (string \<times> json) list" where
  "defined_props [] = []"
| "defined_props ((k, None) # ps) = defined_props ps"
| "defined_props ((k, Some v) # ps) = (k, v) # defined_props ps"

text \<open>Reading a property: \<open>undefined\<close> when the object has none of that name, or when
  the value is a boolean, a number, a string or an array.\<close>

fun get_prop :: "json \<Rightarrow> string \<Rightarrow> jsval" where
  "get_prop (JObj ps) name = map_of ps name"
| "get_prop _ name = None"

section \<open>\<open>User\<close>\<close>

text \<open>
  Modelled from the spec: the class \<open>User\<close> is not among the sources. Its fields are the
  eight of the spec's SessionRecord, \<open>access_token\<close>, \<open>token_type\<close>, \<open>id_token\<close>,
  \<open>refresh_token\<close>, \<open>scope\<close>, \<open>profile\<close>, \<open>expires_at\<close> and \<open>state\<close>, which are the
  eight that \<open>storeUserSession\<close> reads.

  The spec describes no constructor. The one below is the constructor of
  oidc-client-ts, the library that the repository extends. Its argument is shaped like
  a signin response (\<open>buildUser\<close> passes it one): every field comes from the property
  of the same name, except \<open>state\<close>, which comes from the property \<open>userState\<close>.
  Reading a property of \<open>null\<close> throws a \<open>TypeError\<close>, which is the result \<open>None\<close>.
\<close>

record User =
  access_token :: jsval
  token_type :: jsval
  id_token :: jsval
  refresh_token :: jsval
  scope :: jsval
  profile :: jsval
  expires_at :: jsval
  state :: jsval

definition User_new :: "json \<Rightarrow> User option" where
  "User_new args =
     (case args of
        JNull \<Rightarrow> None
      | _ \<Rightarrow> Some \<lparr>access_token = get_prop args ''access_token'',
                  token_type = get_prop args ''token_type'',
                  id_token = get_prop args ''id_token'',
                  refresh_token = get_prop args ''refresh_token'',
                  scope = get_prop args ''scope'',
                  profile = get_prop args ''profile'',
                  expires_at = get_prop args ''expires_at'',
                  state = get_prop args ''userState''\<rparr>)"

section \<open>\<open>ServerSideOidcClient\<close> and \<open>ServerSideUserManager\<close>\<close>

text \<open>
  The constructor of \<open>ServerSideOidcClient\<close> builds one \<open>RedisStateStore\<close> from
  \<open>redisConfig\<close> and hands the same object to the \<open>OidcClient\<close> as its \<open>stateStore\<close>.
  \<open>OidcClient\<close> is not among the sources, so the record holds the store only.
  \<open>ServerSideUserManager\<close> wraps one \<open>ServerSideOidcClient\<close> and keeps the sessions
  in its \<open>stateStore\<close>.
\<close>

record ServerSideOidcClient =
  stateStore :: RedisStateStore

definition ServerSideOidcClient_new :: "RedisConfig option \<Rightarrow> ServerSideOidcClient" where
  "ServerSideOidcClient_new redisConfig = \<lparr>stateStore = RedisStateStore_new redisConfig\<rparr>"

record ServerSideUserManager =
  serverClient :: ServerSideOidcClient

definition ServerSideUserManager_new :: "RedisConfig option \<Rightarrow> ServerSideUserManager" where
  "ServerSideUserManager_new redisConfig = \<lparr>serverClient = ServerSideOidcClient_new redisConfig\<rparr>"

text \<open>The template literal \<open>`session:${sessionKey}`\<close>.\<close>

definition session_key :: "string \<Rightarrow> string" where
  "session_key sessionKey = ''session:'' @ sessionKey"

text \<open>The object literal that \<open>storeUserSession\<close> passes to \<open>JSON.stringify\<close>.\<close>

definition session_object :: "User \<Rightarrow> json" where
  "session_object user =
     JObj (defined_props
       [(''access_token'', access_token user),
        (''token_type'', token_type user),
        (''id_token'', id_token user),
        (''refresh_token'', refresh_token user),
        (''scope'', scope user),
        (''profile'', profile user),
        (''expires_at'', expires_at user),
        (''state'', state user)])"

text \<open>
  \<open>ttl\<close> is the optional third argument; \<open>if (ttl)\<close> holds when it is given and is
  not zero.
\<close>

definition storeUserSession ::
  "JSON \<Rightarrow> ServerSideUserManager \<Rightarrow> string \<Rightarrow> User \<Rightarrow> int option \<Rightarrow> unit io" where
  "storeUserSession J M sessionKey user ttl' w =
     (let userJson = stringify J (session_object user) in
      case RedisStateStore_set (stateStore (serverClient M)) (session_key sessionKey) userJson w of
        (Inl e, w1) \<Rightarrow> (Inl e, w1)
      | (Inr _, w1) \<Rightarrow>
          (case ttl' of
             None \<Rightarrow> (Inr (), w1)
           | Some seconds \<Rightarrow>
               if seconds \<noteq> 0
               then RedisStateStore_expire (stateStore (serverClient M)) (session_key sessionKey) seconds w1
               else (Inr (), w1)))"

definition getUserSession ::
  "JSON \<Rightarrow> ServerSideUserManager \<Rightarrow> string \<Rightarrow> (User option) io" where
  "getUserSession J M sessionKey w =
     (case RedisStateStore_get (stateStore (serverClient M)) (session_key sessionKey) w of
        (Inl e, w1) \<Rightarrow> (Inl e, w1)
      | (Inr userJson, w1) \<Rightarrow>
          (case userJson of
             None \<Rightarrow> (Inr None, w1)
           | Some text \<Rightarrow>
               if text = [] then (Inr None, w1)
               else (case parse J text of
                       None \<Rightarrow> (Inr None, w1)
                     | Some userData \<Rightarrow> (Inr (User_new userData), w1))))"

definition removeUserSession :: "ServerSideUserManager \<Rightarrow> string \<Rightarrow> unit io" where
  "removeUserSession M sessionKey w =
     (case RedisStateStore_remove (stateStore (serverClient M)) (session_key sessionKey) w of
        (Inl e, w1) \<Rightarrow> (Inl e, w1)
      | (Inr _, w1) \<Rightarrow> (Inr (), w1))"

definition hasUserSession :: "ServerSideUserManager \<Rightarrow> string \<Rightarrow> bool io" where
  "hasUserSession M sessionKey w =
     RedisStateStore_exists (stateStore (serverClient M)) (session_key sessionKey) w"

text \<open>
  Modelled from the spec: \<open>OidcClient\<close>, which writes and consumes the flow state, is
  not among the sources. By the spec the flow state is kept in the injected store
  under the correlation identifier, so its backend key is the store's prefixed key
  of that identifier.
\<close>

definition flow_state_key :: "ServerSideOidcClient \<Rightarrow> string \<Rightarrow> string" where
  "flow_state_key C correlation_id = prefixedKey (stateStore C) correlation_id"

definition session_backend_key :: "ServerSideUserManager \<Rightarrow> string \<Rightarrow> string" where
  "session_backend_key M sessionKey =
     prefixedKey (stateStore (serverClient M)) (session_key sessionKey)"

section \<open>Sample data\<close>

text \<open>A backend that holds nothing, has received nothing and rejects nothing.\<close>

definition empty_world :: world where
  "empty_world = \<lparr>entries = [], calls = [], failing = [], warnings = []\<rparr>"

text \<open>The value the backend holds under a key, and its remaining seconds.\<close>

definition holds :: "world \<Rightarrow> string \<Rightarrow> string option" where
  "holds w key = map_option fst (map_of (entries w) key)"

definition remaining :: "world \<Rightarrow> string \<Rightarrow> int option" where
  "remaining w key = map_option snd (map_of (entries w) key)"

text \<open>A backend that holds the one key \<open>oidc:k\<close>, with value \<open>v\<close> and an hour to live.\<close>

definition one_key_world :: world where
  "one_key_world =
     \<lparr>entries = [(''oidc:k'', (''v'', 3600))], calls = [], failing = [], warnings = []\<rparr>"

text \<open>
  Three stores over one backend: the default one (prefix \<open>oidc:\<close>), one with the
  prefix \<open>sessions:\<close> and one with the prefix \<open>oidc:auth:\<close>, which extends the default
  prefix. The examples of the repository configure the last two.
\<close>

definition oidc_store :: RedisStateStore where
  "oidc_store = RedisStateStore_new None"

definition sessions_store :: RedisStateStore where
  "sessions_store = RedisStateStore_new (Some \<lparr>keyPrefix = Some ''sessions:'', ttl = Some 7200\<rparr>)"

definition auth_store :: RedisStateStore where
  "auth_store = RedisStateStore_new (Some \<lparr>keyPrefix = Some ''oidc:auth:'', ttl = None\<rparr>)"

text \<open>A backend that holds one key of the default store and one of the \<open>sessions:\<close> store.\<close>

definition two_stores_world :: world where
  "two_stores_world =
     \<lparr>entries = [(''oidc:k1'', (''v1'', 3600)), (''sessions:k2'', (''v2'', 7200))],
      calls = [], failing = [], warnings = []\<rparr>"

text \<open>
  A user, the text of its session object, and a \<open>JSON\<close> that knows this one document:
  it agrees with \<open>JSON.stringify\<close> on the session object of \<open>sample_user\<close> and with
  \<open>JSON.parse\<close> on \<open>sample_text\<close> and on texts that are not JSON at all.
\<close>

definition sample_user :: User where
  "sample_user =
     \<lparr>access_token = Some (JStr ''mock_access_token''),
      token_type = Some (JStr ''Bearer''),
      id_token = None,
      refresh_token = None,
      scope = Some (JStr ''openid''),
      profile = Some (JObj [(''sub'', JStr ''12345'')]),
      expires_at = Some (JNum 1700000000),
      state = Some (JObj [(''returnUrl'', JStr ''/dashboard'')])\<rparr>"

definition sample_text :: string where
  \<open>sample_text =
     ''{"access_token":"mock_access_token","token_type":"Bearer","scope":"openid",'' @
     ''"profile":{"sub":"12345"},"expires_at":1700000000,"state":{"returnUrl":"/dashboard"}}''\<close>

definition sample_JSON :: JSON where
  "sample_JSON =
     \<lparr>stringify = (\<lambda>j. if j = session_object sample_user then sample_text else ''null''),
      parse = (\<lambda>s. if s = sample_text then Some (session_object sample_user) else None)\<rparr>"

definition sample_manager :: ServerSideUserManager where
  "sample_manager = ServerSideUserManager_new None"

text \<open>A backend whose session \<open>s1\<close> of the default store holds a text that is not JSON.\<close>

definition corrupt_world :: world where
  "corrupt_world =
     \<lparr>entries = [(''oidc:session:s1'', (''{not json'', 3600))],
      calls = [], failing = [], warnings = []\<rparr>"

text \<open>
  The subject of the repository's tests (\<open>RedisStateStore.test.ts\<close>): a store with the
  prefix \<open>test_prefix:\<close>; and an empty backend in which one command rejects.
\<close>

definition subject :: RedisStateStore where
  "subject = RedisStateStore_new (Some \<lparr>keyPrefix = Some ''test_prefix:'', ttl = None\<rparr>)"

definition rejecting_world :: "redis_op \<Rightarrow> world" where
  "rejecting_world op = empty_world\<lparr>failing := [op]\<rparr>"

section \<open>Facts about the backend\<close>

lemmas redis_defs =
  redis_setEx_def redis_get_def redis_del_def redis_keys_def redis_expire_def
  redis_exists_def record_call_def rejects_def

lemmas store_defs =
  RedisStateStore_set_def RedisStateStore_get_def RedisStateStore_remove_def
  RedisStateStore_getAllKeys_def RedisStateStore_expire_def RedisStateStore_exists_def
  RedisStateStore_flushAll_def

lemma glob_star_all: "glob_match ''*'' s"
  by (induction s) auto

lemma glob_literal_step:
  "\<not> glob_special c \<Longrightarrow>
   glob_match (c # p) s = (case s of [] \<Rightarrow> False | x # s' \<Rightarrow> x = c \<and> glob_match p s')"
  by (auto simp: glob_special_def split: list.splits)

lemma glob_prefix: "glob_free p \<Longrightarrow> glob_match (p @ ''*'') k = prefix p k"
proof (induction p arbitrary: k)
  case Nil
  then show ?case using glob_star_all by simp
next
  case (Cons c p)
  then have c: "\<not> glob_special c" and p: "glob_free p"
    by (auto simp: glob_free_def split: if_splits)
  show ?case
    using Cons.IH[OF p] c
    by (cases k) (auto simp: glob_literal_step simp del: glob_match.simps)
qed

lemma delete_as_filter: "AList.delete k es = filter (\<lambda>e. fst e \<noteq> k) es"
  by (induction es) auto

lemma filter_absent_key: "map_of es k = None \<Longrightarrow> filter (\<lambda>e. fst e \<noteq> k) es = es"
  by (induction es) (auto split: if_splits)

lemma del_keys_step:
  "snd (del_keys (k # ks) es) = snd (del_keys ks (filter (\<lambda>e. fst e \<noteq> k) es))"
  by (cases "map_of es k") (simp_all add: filter_absent_key delete_as_filter split: prod.splits)

lemma del_keys_entries: "snd (del_keys ks es) = filter (\<lambda>e. fst e \<notin> set ks) es"
proof (induction ks arbitrary: es)
  case Nil
  show ?case by simp
next
  case (Cons k ks)
  have "snd (del_keys (k # ks) es) =
        filter (\<lambda>e. fst e \<notin> set ks) (filter (\<lambda>e. fst e \<noteq> k) es)"
    by (simp only: del_keys_step Cons.IH)
  also have "\<dots> = filter (\<lambda>e. fst e \<notin> set (k # ks)) es"
    by (auto intro: filter_cong)
  finally show ?case .
qed

lemmas eval_defs =
  store_defs redis_defs holds_def remaining_def empty_world_def RedisStateStore_new_def
  or_string_def or_number_def empty_config_def prefixedKey_def warn_def Let_def

lemma holds_after_del [simp]:
  "map_of (filter (\<lambda>e. fst e \<noteq> k) es) k = None"
  by (induction es) auto

lemmas sample_defs = oidc_store_def sessions_store_def auth_store_def two_stores_world_def one_key_world_def

lemma keys_apart:
  assumes "\<not> prefix p q" and "\<not> prefix q p"
  shows "p @ a \<noteq> q @ b"
  using assms by (auto simp: append_eq_append_conv2 prefix_def)

lemma related_prefixes_collide:
  assumes "prefix p q \<or> prefix q p"
  shows "\<exists>a b. p @ a = q @ b"
  using assms by (auto simp: prefix_def intro: exI [where x = "[]"])

lemma not_under:
  assumes "\<not> prefix p q" and "\<not> prefix q p"
  shows "\<not> prefix q (p @ a)"
  using keys_apart [OF assms] by (auto simp: prefix_def)

lemma filter_keys_update:
  assumes "\<not> P k"
  shows "filter P (map fst (AList.update k v es)) = filter P (map fst es)"
  using assms by (induction es) auto

lemma filter_none_matching:
  "filter P (map fst es) = [] \<Longrightarrow> filter (\<lambda>e. \<not> P (fst e)) es = es"
  by (induction es) (auto split: if_splits)

lemma filter_out_matching:
  "filter (\<lambda>e. fst e \<notin> set (filter P (map fst es))) es = filter (\<lambda>e. \<not> P (fst e)) es"
  by (rule filter_cong) auto

lemma filter_comp_empty:
  "(filter (P \<circ> f) xs = []) = (filter P (map f xs) = [])"
  by (induction xs) auto

section \<open>The repository's tests, run on the model\<close>

text \<open>
  The expectations of \<open>RedisStateStore.test.ts\<close>, with \<open>setEx\<close> for the double's \<open>setex\<close>
  and one \<open>del\<close> of a list for the variadic \<open>del\<close>.
\<close>

lemma test_set_prefixed_key:
  "calls (snd (RedisStateStore_set subject ''key'' ''value'' empty_world))
   = [SetEx ''test_prefix:key'' 3600 ''value'']"
  by (simp add: subject_def eval_defs)

lemma test_set_custom_ttl:
  "calls (snd (RedisStateStore_set
      (RedisStateStore_new (Some \<lparr>keyPrefix = Some ''test_prefix:'', ttl = Some 7200\<rparr>))
      ''key'' ''value'' empty_world))
   = [SetEx ''test_prefix:key'' 7200 ''value'']"
  by (simp add: eval_defs)

lemma test_redis_errors:
  "fst (RedisStateStore_set subject ''key'' ''value'' (rejecting_world OpSetEx)) = Inl RedisError
   \<and> fst (RedisStateStore_get subject ''key'' (rejecting_world OpGet)) = Inl RedisError
   \<and> fst (RedisStateStore_remove subject ''key'' (rejecting_world OpGet)) = Inl RedisError
   \<and> fst (RedisStateStore_getAllKeys subject (rejecting_world OpKeys)) = Inl RedisError
   \<and> fst (RedisStateStore_expire subject ''key'' 300 (rejecting_world OpExpire)) = Inl RedisError
   \<and> fst (RedisStateStore_exists subject ''key'' (rejecting_world OpExists)) = Inl RedisError
   \<and> fst (RedisStateStore_flushAll subject (rejecting_world OpKeys)) = Inl RedisError"
  by (simp add: subject_def rejecting_world_def eval_defs)

lemma test_get:
  "fst (RedisStateStore_get subject ''key''
      (snd (RedisStateStore_set subject ''key'' ''value'' empty_world))) = Inr (Some ''value'')
   \<and> calls (snd (RedisStateStore_get subject ''key'' empty_world)) = [Get ''test_prefix:key'']
   \<and> fst (RedisStateStore_get subject ''nonexistent'' empty_world) = Inr None"
  by (simp add: subject_def eval_defs)

lemma test_remove:
  "fst (RedisStateStore_remove subject ''key''
      (snd (RedisStateStore_set subject ''key'' ''value'' empty_world))) = Inr (Some ''value'')
   \<and> calls (snd (RedisStateStore_remove subject ''key'' empty_world))
       = [Get ''test_prefix:key'', Del [''test_prefix:key'']]
   \<and> fst (RedisStateStore_remove subject ''nonexistent'' empty_world) = Inr None"
  by (simp add: subject_def eval_defs)

lemma test_getAllKeys:
  "RedisStateStore_getAllKeys subject
      (snd (RedisStateStore_set subject ''key2'' ''value2''
        (snd (RedisStateStore_set subject ''key1'' ''value1'' empty_world))))
   = (Inr [''key1'', ''key2''],
      \<lparr>entries = [(''test_prefix:key1'', (''value1'', 3600)), (''test_prefix:key2'', (''value2'', 3600))],
       calls = [SetEx ''test_prefix:key1'' 3600 ''value1'', SetEx ''test_prefix:key2'' 3600 ''value2'',
                Keys ''test_prefix:*''],
       failing = [], warnings = []\<rparr>)
   \<and> fst (RedisStateStore_getAllKeys subject empty_world) = Inr []"
  by (simp add: subject_def eval_defs)

lemma test_expire:
  "calls (snd (RedisStateStore_expire subject ''key'' 300
      (snd (RedisStateStore_set subject ''key'' ''value'' empty_world))))
   = [SetEx ''test_prefix:key'' 3600 ''value'', Expire ''test_prefix:key'' 300]"
  by (simp add: subject_def eval_defs)

lemma test_exists:
  "fst (RedisStateStore_exists subject ''key''
      (snd (RedisStateStore_set subject ''key'' ''value'' empty_world))) = Inr True
   \<and> calls (snd (RedisStateStore_exists subject ''key'' empty_world)) = [Exists ''test_prefix:key'']
   \<and> fst (RedisStateStore_exists subject ''nonexistent'' empty_world) = Inr False"
  by (simp add: subject_def eval_defs)

lemma test_flushAll:
  "calls (snd (RedisStateStore_flushAll subject
      (snd (RedisStateStore_set subject ''key2'' ''value2''
        (snd (RedisStateStore_set subject ''key1'' ''value1'' empty_world))))))
   = [SetEx ''test_prefix:key1'' 3600 ''value1'', SetEx ''test_prefix:key2'' 3600 ''value2'',
      Keys ''test_prefix:*'', Del [''test_prefix:key1'', ''test_prefix:key2'']]
   \<and> calls (snd (RedisStateStore_flushAll subject empty_world)) = [Keys ''test_prefix:*'']"
  by (simp add: subject_def eval_defs)

section \<open>The store\<close>

text \<open>
  Why the prefix must be free of glob metacharacters. With the prefix \<open>app[1]:\<close> the
  pattern \<open>app[1]:*\<close> reads \<open>[1]\<close> as a character class, so it does not match the
  store's own key \<open>app[1]:k\<close>: \<open>flushAll\<close> leaves the key in place and \<open>getAllKeys\<close>
  does not list it. With the prefix \<open>[ab]:\<close> the pattern matches the key \<open>a:k\<close> of the
  store with the prefix \<open>a:\<close>, although neither prefix is a prefix of the other.
\<close>

lemma class_prefix_misses_own_key:
  "fst (RedisStateStore_flushAll \<lparr>store_prefix = ''app[1]:'', store_ttl = 60\<rparr>
      (snd (RedisStateStore_set \<lparr>store_prefix = ''app[1]:'', store_ttl = 60\<rparr> ''k'' ''v''
         empty_world))) = Inr ()
   \<and> holds (snd (RedisStateStore_flushAll \<lparr>store_prefix = ''app[1]:'', store_ttl = 60\<rparr>
      (snd (RedisStateStore_set \<lparr>store_prefix = ''app[1]:'', store_ttl = 60\<rparr> ''k'' ''v''
         empty_world)))) ''app[1]:k'' = Some ''v''
   \<and> fst (RedisStateStore_getAllKeys \<lparr>store_prefix = ''app[1]:'', store_ttl = 60\<rparr>
      (snd (RedisStateStore_set \<lparr>store_prefix = ''app[1]:'', store_ttl = 60\<rparr> ''k'' ''v''
         empty_world))) = Inr []"
  by (simp add: eval_defs)

lemma class_prefix_sees_other_key:
  "\<not> prefix ''[ab]:'' ''a:'' \<and> \<not> prefix ''a:'' ''[ab]:''
   \<and> fst (RedisStateStore_getAllKeys \<lparr>store_prefix = ''[ab]:'', store_ttl = 60\<rparr>
      (snd (RedisStateStore_set \<lparr>store_prefix = ''a:'', store_ttl = 60\<rparr> ''k'' ''v''
         empty_world))) = Inr [[]]"
  by (simp add: eval_defs in_range_def)

text \<open>
  C10. A constructor given \<open>ttl: 0\<close> builds the same store as one given no \<open>ttl\<close>, and
  one given \<open>keyPrefix: ""\<close> the same store as one given no \<open>keyPrefix\<close>, because
  \<open>||\<close> tests the truthiness of the option: the TTL is 3600, the prefix is \<open>oidc:\<close>,
  and \<open>set\<close> sends \<open>setEx\<close> with the key prefixed by \<open>oidc:\<close> and 3600 seconds. Every
  operation is a function of the store, so equal stores behave alike.
\<close>

theorem constructor_defaults_by_truthiness:
  "RedisStateStore_new (Some \<lparr>keyPrefix = kp, ttl = Some 0\<rparr>)
     = RedisStateStore_new (Some \<lparr>keyPrefix = kp, ttl = None\<rparr>)
   \<and> RedisStateStore_new (Some \<lparr>keyPrefix = Some [], ttl = t\<rparr>)
     = RedisStateStore_new (Some \<lparr>keyPrefix = None, ttl = t\<rparr>)
   \<and> RedisStateStore_new (Some \<lparr>keyPrefix = Some [], ttl = Some 0\<rparr>) = RedisStateStore_new None
   \<and> store_ttl (RedisStateStore_new (Some \<lparr>keyPrefix = kp, ttl = Some 0\<rparr>)) = 3600
   \<and> store_prefix (RedisStateStore_new (Some \<lparr>keyPrefix = Some [], ttl = t\<rparr>)) = ''oidc:''
   \<and> calls (snd (RedisStateStore_set
         (RedisStateStore_new (Some \<lparr>keyPrefix = Some [], ttl = Some 0\<rparr>)) key v w))
       = calls w @ [SetEx (''oidc:'' @ key) 3600 v]"
  by (simp add: RedisStateStore_new_def or_string_def or_number_def empty_config_def
      RedisStateStore_set_def prefixedKey_def redis_defs Let_def)

text \<open>
  C3. Round trip: when the backend accepts \<open>setEx\<close> and \<open>get\<close>, \<open>set(k, v)\<close> completes and
  a \<open>get(k)\<close> right after it returns exactly \<open>v\<close>, for every key and every string,
  the empty string and strings with the separator \<open>:\<close> among them.
\<close>

theorem set_get_roundtrip:
  assumes "\<not> rejects OpSetEx w" and "\<not> rejects OpGet w"
  shows "fst (RedisStateStore_set S k v w) = Inr ()
       \<and> fst (RedisStateStore_get S k (snd (RedisStateStore_set S k v w))) = Inr (Some v)"
  using assms
  by (simp add: store_defs redis_defs Let_def AList.update_conv')

theorem set_get_roundtrip_witness:
  "\<not> rejects OpSetEx empty_world \<and> \<not> rejects OpGet empty_world
   \<and> fst (RedisStateStore_get (RedisStateStore_new None) ''a:b''
        (snd (RedisStateStore_set (RedisStateStore_new None) ''a:b'' [] empty_world)))
       = Inr (Some [])
   \<and> fst (RedisStateStore_get (RedisStateStore_new None) ''k''
        (snd (RedisStateStore_set (RedisStateStore_new None) ''k'' ''x:y:'' empty_world)))
       = Inr (Some ''x:y:'')"
proof -
  have a: "\<not> rejects OpSetEx empty_world" and b: "\<not> rejects OpGet empty_world"
    by (simp_all add: rejects_def empty_world_def)
  show ?thesis
    using a b set_get_roundtrip [OF a b, of "RedisStateStore_new None" "''a:b''" "[]"]
      set_get_roundtrip [OF a b, of "RedisStateStore_new None" "''k''" "''x:y:''"]
    by simp
qed

text \<open>
  C2. \<open>remove\<close>, when the backend accepts \<open>get\<close> and \<open>del\<close>: on a key the backend does
  not hold it returns absent and leaves the entries as they are; on a key that holds
  \<open>v\<close> it returns \<open>v\<close> and deletes the key, so that the next \<open>get\<close> returns absent and
  a second \<open>remove\<close> after it returns absent.
\<close>

theorem remove_semantics:
  assumes "\<not> rejects OpGet w" and "\<not> rejects OpDel w"
  shows "(holds w (prefixedKey S k) = None \<longrightarrow>
            fst (RedisStateStore_remove S k w) = Inr None
          \<and> entries (snd (RedisStateStore_remove S k w)) = entries w)
       \<and> (\<forall>v. holds w (prefixedKey S k) = Some v \<longrightarrow>
            (let w1 = snd (RedisStateStore_remove S k w);
                 w2 = snd (RedisStateStore_get S k w1)
             in fst (RedisStateStore_remove S k w) = Inr (Some v)
              \<and> holds w1 (prefixedKey S k) = None
              \<and> fst (RedisStateStore_get S k w1) = Inr None
              \<and> fst (RedisStateStore_remove S k w2) = Inr None))"
  using assms
  by (auto simp: store_defs redis_defs holds_def Let_def delete_as_filter split: prod.splits)

theorem remove_semantics_witness:
  "\<not> rejects OpGet empty_world \<and> \<not> rejects OpDel empty_world
   \<and> holds empty_world (prefixedKey (RedisStateStore_new None) ''k'') = None
   \<and> fst (RedisStateStore_remove (RedisStateStore_new None) ''k'' empty_world) = Inr None
   \<and> \<not> rejects OpGet one_key_world \<and> \<not> rejects OpDel one_key_world
   \<and> holds one_key_world (prefixedKey (RedisStateStore_new None) ''k'') = Some ''v''
   \<and> fst (RedisStateStore_remove (RedisStateStore_new None) ''k'' one_key_world) = Inr (Some ''v'')
   \<and> fst (RedisStateStore_get (RedisStateStore_new None) ''k''
        (snd (RedisStateStore_remove (RedisStateStore_new None) ''k'' one_key_world))) = Inr None"
proof -
  have a: "\<not> rejects OpGet empty_world" and b: "\<not> rejects OpDel empty_world"
    and c: "\<not> rejects OpGet one_key_world" and d: "\<not> rejects OpDel one_key_world"
    by (simp_all add: rejects_def empty_world_def one_key_world_def)
  have e: "holds empty_world (prefixedKey (RedisStateStore_new None) ''k'') = None"
    and f: "holds one_key_world (prefixedKey (RedisStateStore_new None) ''k'') = Some ''v''"
    by (simp_all add: eval_defs one_key_world_def)
  show ?thesis
    using a b c d e f
      remove_semantics [OF a b, of "RedisStateStore_new None" "''k''"]
      remove_semantics [OF c d, of "RedisStateStore_new None" "''k''"]
    by (simp add: Let_def)
qed

text \<open>
  C6. \<open>expire\<close>, when the backend accepts the command, always completes normally. On a
  key the backend does not hold it changes no entry and hands one warning to the
  logger; on a key that holds \<open>v\<close> it keeps \<open>v\<close>, sets the remaining seconds to the
  argument and logs nothing.
\<close>

theorem expire_missing_key:
  assumes "\<not> rejects OpExpire w"
  shows "fst (RedisStateStore_expire S k seconds w) = Inr ()
       \<and> (holds w (prefixedKey S k) = None \<longrightarrow>
            entries (snd (RedisStateStore_expire S k seconds w)) = entries w
          \<and> warnings (snd (RedisStateStore_expire S k seconds w))
              = warnings w @ [''Failed to set expiration for key: '' @ k])
       \<and> (\<forall>v. holds w (prefixedKey S k) = Some v \<longrightarrow>
            entries (snd (RedisStateStore_expire S k seconds w))
              = AList.update (prefixedKey S k) (v, seconds) (entries w)
          \<and> holds (snd (RedisStateStore_expire S k seconds w)) (prefixedKey S k) = Some v
          \<and> remaining (snd (RedisStateStore_expire S k seconds w)) (prefixedKey S k) = Some seconds
          \<and> warnings (snd (RedisStateStore_expire S k seconds w)) = warnings w)"
  using assms
  by (auto simp: store_defs redis_defs holds_def remaining_def warn_def Let_def AList.update_conv'
      split: prod.splits option.splits)

theorem expire_missing_key_witness:
  "\<not> rejects OpExpire empty_world
   \<and> holds empty_world (prefixedKey (RedisStateStore_new None) ''k'') = None
   \<and> fst (RedisStateStore_expire (RedisStateStore_new None) ''k'' 300 empty_world) = Inr ()
   \<and> entries (snd (RedisStateStore_expire (RedisStateStore_new None) ''k'' 300 empty_world)) = []
   \<and> \<not> rejects OpExpire one_key_world
   \<and> holds one_key_world (prefixedKey (RedisStateStore_new None) ''k'') = Some ''v''
   \<and> remaining (snd (RedisStateStore_expire (RedisStateStore_new None) ''k'' 300 one_key_world))
        (prefixedKey (RedisStateStore_new None) ''k'') = Some 300"
proof -
  have a: "\<not> rejects OpExpire empty_world" and c: "\<not> rejects OpExpire one_key_world"
    by (simp_all add: rejects_def empty_world_def one_key_world_def)
  have e: "holds empty_world (prefixedKey (RedisStateStore_new None) ''k'') = None"
    and f: "holds one_key_world (prefixedKey (RedisStateStore_new None) ''k'') = Some ''v''"
    by (simp_all add: eval_defs one_key_world_def)
  have g: "entries empty_world = []" by (simp add: empty_world_def)
  show ?thesis
    using a c e f g
      expire_missing_key [OF a, of "RedisStateStore_new None" "''k''" 300]
      expire_missing_key [OF c, of "RedisStateStore_new None" "''k''" 300]
    by simp
qed

text \<open>
  C1, as amended. Let \<open>A\<close> and \<open>B\<close> be two stores over the same backend such that
  neither prefix is a prefix of the other. Then a \<open>set\<close> through \<open>A\<close>, of any key and any
  value, changes nothing that \<open>B\<close> can see: \<open>get\<close> and \<open>exists\<close> of \<open>B\<close> answer on every
  key what they answered before, and so does \<open>getAllKeys\<close> of \<open>B\<close> when the prefix of
  \<open>B\<close> has no glob metacharacter.
\<close>

theorem namespace_isolation:
  assumes "\<not> prefix (store_prefix A) (store_prefix B)"
    and "\<not> prefix (store_prefix B) (store_prefix A)"
  shows "fst (RedisStateStore_get B kb (snd (RedisStateStore_set A ka v w)))
           = fst (RedisStateStore_get B kb w)
       \<and> fst (RedisStateStore_exists B kb (snd (RedisStateStore_set A ka v w)))
           = fst (RedisStateStore_exists B kb w)
       \<and> (glob_free (store_prefix B) \<longrightarrow>
            fst (RedisStateStore_getAllKeys B (snd (RedisStateStore_set A ka v w)))
              = fst (RedisStateStore_getAllKeys B w))"
proof -
  have ne: "store_prefix B @ kb \<noteq> store_prefix A @ ka"
    using keys_apart [OF assms(2) assms(1)] .
  have nu: "\<not> prefix (store_prefix B) (store_prefix A @ ka)"
    using not_under [OF assms] .
  have 1: "fst (RedisStateStore_get B kb (snd (RedisStateStore_set A ka v w)))
           = fst (RedisStateStore_get B kb w)"
    using ne by (simp add: store_defs redis_defs prefixedKey_def Let_def AList.update_conv')
  have 2: "fst (RedisStateStore_exists B kb (snd (RedisStateStore_set A ka v w)))
           = fst (RedisStateStore_exists B kb w)"
    using ne by (simp add: store_defs redis_defs prefixedKey_def Let_def AList.update_conv')
  have 3: "fst (RedisStateStore_getAllKeys B (snd (RedisStateStore_set A ka v w)))
              = fst (RedisStateStore_getAllKeys B w)" if "glob_free (store_prefix B)"
  proof -
    have "glob_match (store_prefix B @ ''*'') = prefix (store_prefix B)"
      using glob_prefix [OF that] by (intro ext)
    then show ?thesis
      using nu
      by (simp add: store_defs redis_defs prefixedKey_def Let_def filter_keys_update)
  qed
  from 1 2 3 show ?thesis by blast
qed

theorem namespace_isolation_witness:
  "\<not> prefix (store_prefix oidc_store) (store_prefix sessions_store)
   \<and> \<not> prefix (store_prefix sessions_store) (store_prefix oidc_store)
   \<and> glob_free (store_prefix sessions_store)
   \<and> fst (RedisStateStore_set oidc_store ''k'' ''v'' empty_world) = Inr ()
   \<and> fst (RedisStateStore_get sessions_store ''k''
        (snd (RedisStateStore_set oidc_store ''k'' ''v'' empty_world))) = Inr None
   \<and> fst (RedisStateStore_exists sessions_store ''k''
        (snd (RedisStateStore_set oidc_store ''k'' ''v'' empty_world))) = Inr False
   \<and> fst (RedisStateStore_getAllKeys sessions_store
        (snd (RedisStateStore_set oidc_store ''k'' ''v'' empty_world))) = Inr []"
proof -
  have a: "\<not> prefix (store_prefix oidc_store) (store_prefix sessions_store)"
    and b: "\<not> prefix (store_prefix sessions_store) (store_prefix oidc_store)"
    by (simp_all add: sample_defs eval_defs)
  have c: "glob_free (store_prefix sessions_store)"
    by (simp add: sample_defs eval_defs glob_free_def glob_special_def)
  have d: "fst (RedisStateStore_set oidc_store ''k'' ''v'' empty_world) = Inr ()"
    by (simp add: sample_defs eval_defs)
  have e: "fst (RedisStateStore_get sessions_store ''k'' empty_world) = Inr None"
    and f: "fst (RedisStateStore_exists sessions_store ''k'' empty_world) = Inr False"
    and g: "fst (RedisStateStore_getAllKeys sessions_store empty_world) = Inr []"
    by (simp_all add: sample_defs eval_defs)
  show ?thesis
    using a b c d e f g
      namespace_isolation [OF a b, of "''k''" "''k''" "''v''" empty_world]
    by simp
qed

text \<open>
  The claim as stated fails for two different prefixes of which one extends the other:
  the default store writes \<open>oidc:auth:k\<close> under its key \<open>auth:k\<close>, and the store with
  the prefix \<open>oidc:auth:\<close> then reads that value under its key \<open>k\<close>, reports it present
  and lists it.
\<close>

theorem namespace_isolation_counterexample:
  "store_prefix oidc_store \<noteq> store_prefix auth_store
   \<and> fst (RedisStateStore_get auth_store ''k'' empty_world) = Inr None
   \<and> fst (RedisStateStore_get auth_store ''k''
        (snd (RedisStateStore_set oidc_store ''auth:k'' ''v'' empty_world))) = Inr (Some ''v'')
   \<and> fst (RedisStateStore_exists auth_store ''k''
        (snd (RedisStateStore_set oidc_store ''auth:k'' ''v'' empty_world))) = Inr True
   \<and> fst (RedisStateStore_getAllKeys auth_store
        (snd (RedisStateStore_set oidc_store ''auth:k'' ''v'' empty_world))) = Inr [''k'']"
  by (simp add: sample_defs eval_defs)

text \<open>
  C4, as amended. For a store whose prefix has no glob metacharacter, over a backend that
  accepts \<open>keys\<close> and \<open>del\<close>: \<open>flushAll\<close> completes, deletes exactly the entries whose
  backend key starts with the store's prefix and leaves every other entry as it was
  (key, value, remaining seconds and order); it sends \<open>keys\<close> with the pattern prefix
  + \<open>*\<close>, followed by one \<open>del\<close> of the matching keys, and by no \<open>del\<close> at all when no
  key starts with the prefix.
\<close>

theorem flushAll_scope:
  assumes "glob_free (store_prefix S)" and "\<not> rejects OpKeys w" and "\<not> rejects OpDel w"
  shows "fst (RedisStateStore_flushAll S w) = Inr ()
       \<and> entries (snd (RedisStateStore_flushAll S w))
           = filter (\<lambda>e. \<not> prefix (store_prefix S) (fst e)) (entries w)
       \<and> calls (snd (RedisStateStore_flushAll S w))
           = calls w @ Keys (store_prefix S @ ''*'')
               # (if filter (prefix (store_prefix S)) (map fst (entries w)) = [] then []
                  else [Del (filter (prefix (store_prefix S)) (map fst (entries w)))])"
proof -
  have gm: "glob_match (store_prefix S @ ''*'') = prefix (store_prefix S)"
    using glob_prefix [OF assms(1)] by (intro ext)
  show ?thesis
  proof (cases "filter (prefix (store_prefix S)) (map fst (entries w)) = []")
    case True
    then have "filter (prefix (store_prefix S) \<circ> fst) (entries w) = []"
      by (simp only: filter_comp_empty)
    then show ?thesis
      using assms(2) True filter_none_matching [OF True]
      by (simp add: store_defs redis_defs Let_def gm del: filter_map)
  next
    case False
    obtain n es where d: "del_keys (filter (prefix (store_prefix S)) (map fst (entries w))) (entries w) = (n, es)"
      by (cases "del_keys (filter (prefix (store_prefix S)) (map fst (entries w))) (entries w)")
    have "es = snd (del_keys (filter (prefix (store_prefix S)) (map fst (entries w))) (entries w))"
      by (simp add: d)
    then have "es = filter (\<lambda>e. \<not> prefix (store_prefix S) (fst e)) (entries w)"
      by (simp only: del_keys_entries filter_out_matching)
    moreover have "filter (prefix (store_prefix S) \<circ> fst) (entries w) \<noteq> []"
      using False by (simp add: filter_comp_empty)
    ultimately show ?thesis
      using assms(2,3) False d
      by (simp add: store_defs redis_defs Let_def gm del: filter_map)
  qed
qed


theorem flushAll_scope_witness:
  "glob_free (store_prefix oidc_store)
   \<and> \<not> rejects OpKeys two_stores_world \<and> \<not> rejects OpDel two_stores_world
   \<and> fst (RedisStateStore_flushAll oidc_store two_stores_world) = Inr ()
   \<and> entries (snd (RedisStateStore_flushAll oidc_store two_stores_world))
       = [(''sessions:k2'', (''v2'', 7200))]
   \<and> calls (snd (RedisStateStore_flushAll oidc_store two_stores_world))
       = [Keys ''oidc:*'', Del [''oidc:k1'']]
   \<and> \<not> rejects OpKeys empty_world \<and> \<not> rejects OpDel empty_world
   \<and> calls (snd (RedisStateStore_flushAll oidc_store empty_world)) = [Keys ''oidc:*'']"
proof -
  have a: "glob_free (store_prefix oidc_store)"
    by (simp add: sample_defs eval_defs glob_free_def glob_special_def)
  have b: "\<not> rejects OpKeys two_stores_world" and c: "\<not> rejects OpDel two_stores_world"
    and d: "\<not> rejects OpKeys empty_world" and e: "\<not> rejects OpDel empty_world"
    by (simp_all add: rejects_def sample_defs empty_world_def)
  have p: "store_prefix oidc_store = ''oidc:''"
    by (simp add: sample_defs eval_defs)
  show ?thesis
    using a b c d e flushAll_scope [OF a b c] flushAll_scope [OF a d e]
    by (simp add: p two_stores_world_def empty_world_def)
qed

text \<open>
  The claim as stated fails for a key under another prefix that extends the store's
  own: \<open>flushAll\<close> of the default store deletes the key \<open>oidc:auth:k\<close> that the store
  with the prefix \<open>oidc:auth:\<close> has set.
\<close>

theorem flushAll_scope_counterexample:
  "store_prefix auth_store \<noteq> store_prefix oidc_store
   \<and> holds (snd (RedisStateStore_set auth_store ''k'' ''v'' empty_world))
        (prefixedKey auth_store ''k'') = Some ''v''
   \<and> fst (RedisStateStore_flushAll oidc_store
        (snd (RedisStateStore_set auth_store ''k'' ''v'' empty_world))) = Inr ()
   \<and> holds (snd (RedisStateStore_flushAll oidc_store
        (snd (RedisStateStore_set auth_store ''k'' ''v'' empty_world))))
        (prefixedKey auth_store ''k'') = None"
  by (simp add: sample_defs eval_defs)

section \<open>Sessions\<close>

lemmas manager_defs =
  storeUserSession_def getUserSession_def removeUserSession_def hasUserSession_def
  session_key_def session_backend_key_def flow_state_key_def
  ServerSideUserManager_new_def ServerSideOidcClient_new_def

lemmas session_sample_defs = sample_user_def sample_text_def sample_JSON_def sample_manager_def corrupt_world_def

text \<open>
  C7, as amended. When the backend accepts \<open>setEx\<close>, \<open>storeUserSession\<close> sends \<open>setEx\<close> for
  the session key with the store's TTL and the serialized record; when a TTL that is
  not zero is given it sends \<open>expire\<close> for the same key right after, and nothing else:
  two backend writes with a non-zero override, one when the override is omitted or
  is zero.
\<close>

theorem storeUserSession_writes:
  assumes "\<not> rejects OpSetEx w"
  shows "calls (snd (storeUserSession J M sessionKey user t w))
         = calls w
           @ SetEx (session_backend_key M sessionKey) (store_ttl (stateStore (serverClient M)))
               (stringify J (session_object user))
           # (case t of
                None \<Rightarrow> []
              | Some seconds \<Rightarrow>
                  if seconds = 0 then [] else [Expire (session_backend_key M sessionKey) seconds])"
  using assms
  by (auto simp: manager_defs store_defs redis_defs prefixedKey_def warn_def Let_def
      split: option.splits prod.splits)

theorem storeUserSession_writes_witness:
  "\<not> rejects OpSetEx empty_world
   \<and> calls (snd (storeUserSession sample_JSON sample_manager ''s1'' sample_user (Some 7200) empty_world))
       = [SetEx ''oidc:session:s1'' 3600 sample_text, Expire ''oidc:session:s1'' 7200]
   \<and> calls (snd (storeUserSession sample_JSON sample_manager ''s1'' sample_user None empty_world))
       = [SetEx ''oidc:session:s1'' 3600 sample_text]"
proof -
  have a: "\<not> rejects OpSetEx empty_world"
    by (simp add: rejects_def empty_world_def)
  have b: "session_backend_key sample_manager ''s1'' = ''oidc:session:s1''"
    and c: "store_ttl (stateStore (serverClient sample_manager)) = 3600"
    and d: "stringify sample_JSON (session_object sample_user) = sample_text"
    and e: "calls empty_world = []"
    by (simp_all add: manager_defs session_sample_defs eval_defs)
  show ?thesis
    using a
      storeUserSession_writes [OF a, of sample_JSON sample_manager "''s1''" sample_user "Some 7200"]
      storeUserSession_writes [OF a, of sample_JSON sample_manager "''s1''" sample_user None]
    by (simp add: b c d e)
qed

text \<open>
  The claim as stated fails for the override \<open>0\<close>: it is given, yet \<open>if (ttl)\<close> is false
  and the only backend write is the \<open>setEx\<close>.
\<close>

theorem storeUserSession_writes_counterexample:
  "fst (storeUserSession sample_JSON sample_manager ''s1'' sample_user (Some 0) empty_world) = Inr ()
   \<and> calls (snd (storeUserSession sample_JSON sample_manager ''s1'' sample_user (Some 0) empty_world))
       = [SetEx ''oidc:session:s1'' 3600 sample_text]"
  by (simp add: manager_defs session_sample_defs eval_defs session_object_def)

text \<open>
  C5. When the backend accepts \<open>get\<close>, \<open>getUserSession\<close> on a key whose stored text
  \<open>JSON.parse\<close> rejects returns absent and raises nothing; result and effect (one
  \<open>get\<close> of the session key) are those of a key the backend does not hold.
\<close>

theorem getUserSession_corrupt:
  assumes "\<not> rejects OpGet w"
  shows "(holds w (session_backend_key M sessionKey) = None \<longrightarrow>
            getUserSession J M sessionKey w
              = (Inr None, record_call (Get (session_backend_key M sessionKey)) w))
       \<and> (\<forall>text. holds w (session_backend_key M sessionKey) = Some text \<and> parse J text = None \<longrightarrow>
            getUserSession J M sessionKey w
              = (Inr None, record_call (Get (session_backend_key M sessionKey)) w))"
  using assms
  by (auto simp: manager_defs store_defs redis_defs holds_def prefixedKey_def Let_def
      split: option.splits prod.splits)

theorem getUserSession_corrupt_witness:
  "\<not> rejects OpGet corrupt_world
   \<and> holds corrupt_world (session_backend_key sample_manager ''s1'') = Some ''{not json''
   \<and> parse sample_JSON ''{not json'' = None
   \<and> fst (getUserSession sample_JSON sample_manager ''s1'' corrupt_world) = Inr None
   \<and> \<not> rejects OpGet empty_world
   \<and> holds empty_world (session_backend_key sample_manager ''s1'') = None
   \<and> fst (getUserSession sample_JSON sample_manager ''s1'' empty_world) = Inr None"
proof -
  have a: "\<not> rejects OpGet corrupt_world" and b: "\<not> rejects OpGet empty_world"
    by (simp_all add: rejects_def empty_world_def corrupt_world_def)
  have c: "holds corrupt_world (session_backend_key sample_manager ''s1'') = Some ''{not json''"
    and d: "parse sample_JSON ''{not json'' = None"
    and e: "holds empty_world (session_backend_key sample_manager ''s1'') = None"
    by (simp_all add: manager_defs session_sample_defs eval_defs)
  show ?thesis
    using a b c d e
      getUserSession_corrupt [OF a, of sample_manager "''s1''" sample_JSON]
      getUserSession_corrupt [OF b, of sample_manager "''s1''" sample_JSON]
    by simp
qed

lemma map_of_defined_props:
  "distinct (map fst ps) \<Longrightarrow>
   map_of (defined_props ps) k = (case map_of ps k of None \<Rightarrow> None | Some v \<Rightarrow> v)"
proof (induction ps rule: defined_props.induct)
  case 1
  show ?case by simp
next
  case (2 k' ps)
  then have "map_of ps k' = None"
    by (simp add: map_of_eq_None_iff)
  with 2 show ?case by auto
next
  case (3 k' v ps)
  then show ?case by simp
qed

lemma User_new_session_object: "User_new (session_object u) = Some (u\<lparr>state := None\<rparr>)"
  by (simp add: User_new_def session_object_def map_of_defined_props)

text \<open>
  What the session scenario does for every user, over a backend that accepts \<open>setEx\<close>,
  \<open>exists\<close>, \<open>get\<close> and \<open>del\<close> and with a \<open>JSON\<close> that parses the text of the session
  object back to that object: \<open>hasUserSession\<close> is true after the store and false after
  the removal, and \<open>getUserSession\<close> returns the stored user with \<open>state\<close> undefined.
\<close>

lemma session_scenario_as_coded:
  assumes "\<not> rejects OpSetEx w" and "\<not> rejects OpExists w" and "\<not> rejects OpGet w"
    and "\<not> rejects OpDel w"
    and "parse J (stringify J (session_object user)) = Some (session_object user)"
    and "stringify J (session_object user) \<noteq> []"
  shows "(let w1 = snd (storeUserSession J M sessionKey user None w);
              w2 = snd (hasUserSession M sessionKey w1);
              w3 = snd (getUserSession J M sessionKey w2);
              w4 = snd (removeUserSession M sessionKey w3)
          in fst (storeUserSession J M sessionKey user None w) = Inr ()
           \<and> fst (hasUserSession M sessionKey w1) = Inr True
           \<and> fst (getUserSession J M sessionKey w2) = Inr (Some (user\<lparr>state := None\<rparr>))
           \<and> fst (removeUserSession M sessionKey w3) = Inr ()
           \<and> fst (hasUserSession M sessionKey w4) = Inr False)"
  using assms
  by (simp add: manager_defs store_defs redis_defs prefixedKey_def Let_def AList.update_conv'
      User_new_session_object delete_as_filter split: prod.splits)

text \<open>
  C8. The claim asks that \<open>getUserSession\<close> after \<open>storeUserSession\<close> return a record
  equal to the stored one in all eight fields. The code does not: \<open>storeUserSession\<close>
  writes the user's state under the property \<open>state\<close>, and the constructor that
  \<open>getUserSession\<close> calls on the parsed object reads it from \<open>userState\<close>. For the
  sample user, whose state is \<open>{returnUrl: "/dashboard"}\<close>, \<open>hasUserSession\<close> is true
  after the store, \<open>getUserSession\<close> returns the user with the seven other fields as
  stored and \<open>state\<close> undefined, which is not the stored user, and \<open>hasUserSession\<close> is
  false after the removal.
\<close>

theorem session_state_dropped:
  "(let w1 = snd (storeUserSession sample_JSON sample_manager ''s1'' sample_user None empty_world);
        w2 = snd (hasUserSession sample_manager ''s1'' w1);
        w3 = snd (getUserSession sample_JSON sample_manager ''s1'' w2);
        w4 = snd (removeUserSession sample_manager ''s1'' w3)
    in state sample_user = Some (JObj [(''returnUrl'', JStr ''/dashboard'')])
     \<and> fst (storeUserSession sample_JSON sample_manager ''s1'' sample_user None empty_world) = Inr ()
     \<and> fst (hasUserSession sample_manager ''s1'' w1) = Inr True
     \<and> fst (getUserSession sample_JSON sample_manager ''s1'' w2)
         = Inr (Some (sample_user\<lparr>state := None\<rparr>))
     \<and> fst (getUserSession sample_JSON sample_manager ''s1'' w2) \<noteq> Inr (Some sample_user)
     \<and> fst (removeUserSession sample_manager ''s1'' w3) = Inr ()
     \<and> fst (hasUserSession sample_manager ''s1'' w4) = Inr False)"
proof -
  have a: "\<not> rejects OpSetEx empty_world" and b: "\<not> rejects OpExists empty_world"
    and c: "\<not> rejects OpGet empty_world" and d: "\<not> rejects OpDel empty_world"
    by (simp_all add: rejects_def empty_world_def)
  have e: "parse sample_JSON (stringify sample_JSON (session_object sample_user))
           = Some (session_object sample_user)"
    and f: "stringify sample_JSON (session_object sample_user) \<noteq> []"
    by (simp_all add: sample_JSON_def sample_text_def)
  have g: "state sample_user = Some (JObj [(''returnUrl'', JStr ''/dashboard'')])"
    by (simp add: sample_user_def)
  have h: "sample_user\<lparr>state := None\<rparr> \<noteq> sample_user"
    by (simp add: sample_user_def)
  show ?thesis
    using g h session_scenario_as_coded [OF a b c d e f, of sample_manager "''s1''"]
    by (simp add: Let_def)
qed

lemma holds_set_other:
  "prefixedKey S k \<noteq> key \<Longrightarrow> holds (snd (RedisStateStore_set S k v w)) key = holds w key"
  by (simp add: store_defs redis_defs holds_def Let_def AList.update_conv')

lemma holds_expire_other:
  "prefixedKey S k \<noteq> key \<Longrightarrow> holds (snd (RedisStateStore_expire S k seconds w)) key = holds w key"
  by (auto simp: store_defs redis_defs holds_def warn_def Let_def AList.update_conv'
      split: option.splits prod.splits)

lemma map_of_filter_other:
  "key \<noteq> k \<Longrightarrow> map_of (filter (\<lambda>e. fst e \<noteq> k) es) key = map_of es key"
  by (induction es) auto

lemma entries_redis_del:
  "entries (snd (redis_del ks w))
   = (if rejects OpDel w then entries w else filter (\<lambda>e. fst e \<notin> set ks) (entries w))"
proof -
  obtain n es where d: "del_keys ks (entries w) = (n, es)"
    by (cases "del_keys ks (entries w)")
  then have "es = snd (del_keys ks (entries w))" by simp
  then have "es = filter (\<lambda>e. fst e \<notin> set ks) (entries w)"
    by (simp only: del_keys_entries)
  then show ?thesis
    using d by (simp add: redis_del_def record_call_def rejects_def Let_def)
qed

lemma entries_redis_get: "entries (snd (redis_get key w)) = entries w"
  by (simp add: redis_get_def record_call_def Let_def)

lemma rejects_redis_get: "rejects op (snd (redis_get key w)) = rejects op w"
  by (simp add: redis_get_def record_call_def rejects_def Let_def)

lemma holds_remove_other:
  assumes "prefixedKey S k \<noteq> key"
  shows "holds (snd (RedisStateStore_remove S k w)) key = holds w key"
proof -
  obtain r w1 where g: "redis_get (prefixedKey S k) w = (r, w1)"
    by (cases "redis_get (prefixedKey S k) w")
  have e1: "entries w1 = entries w"
    using entries_redis_get [of "prefixedKey S k" w] g by simp
  obtain r2 w2 where d: "redis_del [prefixedKey S k] w1 = (r2, w2)"
    by (cases "redis_del [prefixedKey S k] w1")
  have "entries w2 = entries w1 \<or> entries w2 = filter (\<lambda>e. fst e \<noteq> prefixedKey S k) (entries w1)"
    using entries_redis_del [of "[prefixedKey S k]" w1] d by (simp split: if_splits)
  then have e2: "map_of (entries w2) key = map_of (entries w) key"
    using assms e1 by (auto simp: map_of_filter_other)
  show ?thesis
    using e1 e2
    by (cases r; cases r2) (simp_all add: RedisStateStore_remove_def g d holds_def)
qed

lemma holds_storeUserSession_other:
  assumes "session_backend_key M s \<noteq> key"
  shows "holds (snd (storeUserSession J M s u t w)) key = holds w key"
proof -
  let ?S = "stateStore (serverClient M)"
  have ne: "prefixedKey ?S (session_key s) \<noteq> key"
    using assms by (simp add: session_backend_key_def)
  obtain r w1 where eq:
    "RedisStateStore_set ?S (session_key s) (stringify J (session_object u)) w = (r, w1)"
    by (cases "RedisStateStore_set ?S (session_key s) (stringify J (session_object u)) w")
  have h1: "holds w1 key = holds w key"
    using holds_set_other [OF ne, of "stringify J (session_object u)" w] eq by simp
  have h2: "holds (snd (RedisStateStore_expire ?S (session_key s) seconds w1)) key = holds w key"
    for seconds
    using holds_expire_other [OF ne, of seconds w1] h1 by simp
  show ?thesis
    using h1 h2
    by (cases r; cases t) (simp_all add: storeUserSession_def eq Let_def)
qed

lemma holds_removeUserSession_other:
  assumes "session_backend_key M s \<noteq> key"
  shows "holds (snd (removeUserSession M s w)) key = holds w key"
proof -
  let ?S = "stateStore (serverClient M)"
  have ne: "prefixedKey ?S (session_key s) \<noteq> key"
    using assms by (simp add: session_backend_key_def)
  obtain r w1 where eq: "RedisStateStore_remove ?S (session_key s) w = (r, w1)"
    by (cases "RedisStateStore_remove ?S (session_key s) w")
  have "holds w1 key = holds w key"
    using holds_remove_other [OF ne, of w] eq by simp
  then show ?thesis
    by (cases r) (simp_all add: removeUserSession_def eq)
qed

text \<open>
  C9, as amended. The backend key of the flow state of \<open>c\<close> equals the backend key of
  the session of \<open>s\<close> exactly when \<open>c\<close> is \<open>session:\<close> followed by \<open>s\<close>. Reusing one
  identifier for both never collides. For every other pair, storing or removing the
  session of \<open>s\<close> leaves the entry of the flow state of \<open>c\<close> as it was, and setting or
  removing the flow state of \<open>c\<close> leaves the entry of the session of \<open>s\<close> as it was.
\<close>

theorem flow_and_session_keys:
  "(flow_state_key (serverClient M) c = session_backend_key M s \<longleftrightarrow> c = session_key s)
   \<and> flow_state_key (serverClient M) c \<noteq> session_backend_key M c
   \<and> (c \<noteq> session_key s \<longrightarrow>
        holds (snd (storeUserSession J M s u t w)) (flow_state_key (serverClient M) c)
          = holds w (flow_state_key (serverClient M) c)
      \<and> holds (snd (removeUserSession M s w)) (flow_state_key (serverClient M) c)
          = holds w (flow_state_key (serverClient M) c)
      \<and> holds (snd (RedisStateStore_set (stateStore (serverClient M)) c v w)) (session_backend_key M s)
          = holds w (session_backend_key M s)
      \<and> holds (snd (RedisStateStore_remove (stateStore (serverClient M)) c w)) (session_backend_key M s)
          = holds w (session_backend_key M s))"
proof -
  have iff: "flow_state_key (serverClient M) c = session_backend_key M s \<longleftrightarrow> c = session_key s"
    by (simp add: flow_state_key_def session_backend_key_def prefixedKey_def)
  have self: "flow_state_key (serverClient M) c \<noteq> session_backend_key M c"
    by (simp add: flow_state_key_def session_backend_key_def prefixedKey_def session_key_def)
  have frame: ?thesis if ne: "c \<noteq> session_key s"
  proof -
    have k1: "session_backend_key M s \<noteq> flow_state_key (serverClient M) c"
      using ne iff by auto
    have k2: "prefixedKey (stateStore (serverClient M)) c \<noteq> session_backend_key M s"
      using k1 by (simp add: flow_state_key_def)
    show ?thesis
      using iff self holds_storeUserSession_other [OF k1] holds_removeUserSession_other [OF k1]
        holds_set_other [OF k2] holds_remove_other [OF k2]
      by simp
  qed
  show ?thesis
  proof (cases "c = session_key s")
    case True
    with iff self show ?thesis by simp
  next
    case False
    then show ?thesis by (rule frame)
  qed
qed


theorem flow_and_session_keys_witness:
  "''s1'' \<noteq> session_key ''s1''
   \<and> flow_state_key (serverClient sample_manager) ''s1'' = ''oidc:s1''
   \<and> session_backend_key sample_manager ''s1'' = ''oidc:session:s1''
   \<and> holds (snd (RedisStateStore_set (stateStore (serverClient sample_manager)) ''s1'' ''flow'' empty_world))
        (flow_state_key (serverClient sample_manager) ''s1'') = Some ''flow''
   \<and> holds (snd (storeUserSession sample_JSON sample_manager ''s1'' sample_user None
          (snd (RedisStateStore_set (stateStore (serverClient sample_manager)) ''s1'' ''flow'' empty_world))))
        (flow_state_key (serverClient sample_manager) ''s1'') = Some ''flow''
   \<and> holds (snd (removeUserSession sample_manager ''s1''
          (snd (RedisStateStore_set (stateStore (serverClient sample_manager)) ''s1'' ''flow'' empty_world))))
        (flow_state_key (serverClient sample_manager) ''s1'') = Some ''flow''"
proof -
  have a: "''s1'' \<noteq> session_key ''s1''"
    by (simp add: session_key_def)
  have b: "flow_state_key (serverClient sample_manager) ''s1'' = ''oidc:s1''"
    and c: "session_backend_key sample_manager ''s1'' = ''oidc:session:s1''"
    by (simp_all add: manager_defs session_sample_defs eval_defs)
  have d: "holds (snd (RedisStateStore_set (stateStore (serverClient sample_manager)) ''s1'' ''flow'' empty_world))
        (flow_state_key (serverClient sample_manager) ''s1'') = Some ''flow''"
    by (simp add: manager_defs session_sample_defs eval_defs)
  show ?thesis
    using a b c d
      flow_and_session_keys [of sample_manager "''s1''" "''s1''" sample_JSON sample_user None
        "snd (RedisStateStore_set (stateStore (serverClient sample_manager)) ''s1'' ''flow'' empty_world)"]
    by simp
qed

text \<open>
  The claim as stated fails for the correlation identifier \<open>session:s1\<close> and the
  session identifier \<open>s1\<close>: both live under \<open>oidc:session:s1\<close>, so storing the session
  overwrites the flow state and removing the session deletes it.
\<close>

theorem flow_and_session_keys_counterexample:
  "flow_state_key (serverClient sample_manager) ''session:s1'' = session_backend_key sample_manager ''s1''
   \<and> holds (snd (RedisStateStore_set (stateStore (serverClient sample_manager)) ''session:s1'' ''flow'' empty_world))
        (flow_state_key (serverClient sample_manager) ''session:s1'') = Some ''flow''
   \<and> holds (snd (storeUserSession sample_JSON sample_manager ''s1'' sample_user None
          (snd (RedisStateStore_set (stateStore (serverClient sample_manager)) ''session:s1'' ''flow'' empty_world))))
        (flow_state_key (serverClient sample_manager) ''session:s1'') = Some sample_text
   \<and> holds (snd (removeUserSession sample_manager ''s1''
          (snd (RedisStateStore_set (stateStore (serverClient sample_manager)) ''session:s1'' ''flow'' empty_world))))
        (flow_state_key (serverClient sample_manager) ''session:s1'') = None"
  by (simp add: manager_defs session_sample_defs eval_defs session_object_def)

end
